theory Spec2Isabelle
  imports Complex_Main
begin

section \<open>Data model of \<^verbatim>\<open>mic_array.py\<close>\<close>

text \<open>
  A microphone name is a Python \<^verbatim>\<open>Union[int, str]\<close>; \<^verbatim>\<open>Optional[...]\<close> adds
  \<^verbatim>\<open>None\<close>, which is \<open>None\<close> of the option type here.
\<close>

datatype mic_name = IntName int | StrName string

text \<open>
  A position is a sequence of numbers. \<^verbatim>\<open>np.array\<close> turns the list it is given into an
  array holding the same numbers in the same order; nothing in this module computes with
  them, they are only stored.
\<close>

type_synonym ndarray = "real list"

definition np_array :: "real list \<Rightarrow> ndarray" where
  "np_array xs = xs"

text \<open>
  The dictionary that parsing one JSON microphone object gives. The code looks at the keys
  \<^verbatim>\<open>name\<close>, \<^verbatim>\<open>fS\<close> and \<^verbatim>\<open>pos\<close> only; each entry is \<open>None\<close> when the key is absent and
  holds the value at the type the class declares for the attribute otherwise. A \<^verbatim>\<open>name\<close>
  key may be present with the JSON value \<^verbatim>\<open>null\<close>: that is \<open>Some None\<close>.
\<close>

record json_mic_obj =
  j_name :: "mic_name option option"
  j_fS :: "int option"
  j_pos :: "real list option"

text \<open>The test \<^verbatim>\<open>key in json_mic_obj\<close>.\<close>

definition has_key :: "json_mic_obj \<Rightarrow> string \<Rightarrow> bool" where
  "has_key obj k =
     (if k = ''name'' then j_name obj \<noteq> None
      else if k = ''fS'' then j_fS obj \<noteq> None
      else if k = ''pos'' then j_pos obj \<noteq> None
      else False)"

text \<open>
  The exceptions. \<^verbatim>\<open>ConfigError\<close> and \<^verbatim>\<open>InvalidInput\<close> come from the module
  \<^verbatim>\<open>exceptions\<close>; their messages are format strings, and the error value carries what the
  message is formatted from: for \<^verbatim>\<open>ConfigError\<close> the missing parameter and the object that
  \<^verbatim>\<open>json.dumps\<close> dumps into the message, for \<^verbatim>\<open>InvalidInput\<close> the name that was looked
  up. \<^verbatim>\<open>KeyError\<close> is what a subscript with a missing key raises, and \<^verbatim>\<open>LoadError\<close>
  stands for whatever \<^verbatim>\<open>open\<close> or \<^verbatim>\<open>json.load\<close> reports.
\<close>

datatype error =
    ConfigError string json_mic_obj
  | InvalidInput "mic_name option"
  | KeyError
  | LoadError string

record Mic =
  name :: "mic_name option"
  fS :: int
  pos :: ndarray

definition required_params :: "string list" where
  "required_params = [''fS'', ''pos'']"

text \<open>The loop over \<^verbatim>\<open>Mic.required_params\<close>: the first missing parameter raises.\<close>

fun check_required :: "json_mic_obj \<Rightarrow> string list \<Rightarrow> error option" where
  "check_required obj [] = None"
| "check_required obj (param # params) =
     (if \<not> has_key obj param then Some (ConfigError param obj)
      else check_required obj params)"

text \<open>
  \<^verbatim>\<open>Mic.__init__\<close>. The three assignments come after the loop; a subscript of a missing key
  would raise \<^verbatim>\<open>KeyError\<close>.
\<close>

definition Mic_init :: "json_mic_obj \<Rightarrow> mic_name option \<Rightarrow> error + Mic" where
  "Mic_init obj default_name =
     (case check_required obj required_params of
        Some e \<Rightarrow> Inl e
      | None \<Rightarrow>
          (case j_fS obj of
             None \<Rightarrow> Inl KeyError
           | Some f \<Rightarrow>
               (case j_pos obj of
                  None \<Rightarrow> Inl KeyError
                | Some p \<Rightarrow>
                    Inr \<lparr>name = (case j_name obj of Some v \<Rightarrow> v | None \<Rightarrow> default_name),
                         fS = f,
                         pos = np_array p\<rparr>)))"

text \<open>
  The state: the heap of \<^verbatim>\<open>Mic\<close> objects, addressed by references, and the attributes of
  one \<^verbatim>\<open>MicArray\<close>. The list \<open>mics\<close> and the dictionary \<open>name_to_mic\<close> hold references
  to the same objects, so a write through one is seen through the other. \<open>next_ref\<close> is
  the next unused reference: creating an object stores it there. A dictionary key is a
  microphone's name, which may be \<^verbatim>\<open>None\<close>.
\<close>

type_synonym ref = nat

record MicArray =
  heap :: "ref \<Rightarrow> Mic"
  next_ref :: ref
  cfg_fname :: string
  nChannels :: nat
  mics :: "ref list"
  valid_names :: "bool option"
  name_to_mic :: "mic_name option \<rightharpoonup> ref"

text \<open>
  \<^verbatim>\<open>_load_cfg\<close>. The argument \<open>files\<close> is \<^verbatim>\<open>open\<close> followed by \<^verbatim>\<open>json.load\<close>: the parsed
  array of the file of that name, or the error of the layer below. The loop creates one
  \<^verbatim>\<open>Mic\<close> per element, with no default name, and appends it.
\<close>

fun append_mics :: "json_mic_obj list \<Rightarrow> MicArray \<Rightarrow> error + MicArray" where
  "append_mics [] s = Inr s"
| "append_mics (obj # data) s =
     (case Mic_init obj None of
        Inl e \<Rightarrow> Inl e
      | Inr m \<Rightarrow>
          append_mics data
            (s\<lparr>heap := (heap s)(next_ref s := m),
               next_ref := Suc (next_ref s),
               mics := mics s @ [next_ref s]\<rparr>))"

definition load_cfg :: "(string \<Rightarrow> error + json_mic_obj list) \<Rightarrow> MicArray \<Rightarrow> error + MicArray" where
  "load_cfg files s =
     (case files (cfg_fname s) of
        Inl e \<Rightarrow> Inl e
      | Inr data \<Rightarrow> append_mics data (s\<lparr>nChannels := length data, mics := []\<rparr>))"

text \<open>
  The dictionary comprehension \<^verbatim>\<open>{mic.name: mic for mic in self.mics}\<close>: one store per
  element, in order, a later store replacing an earlier one at the same key.
\<close>

definition dict_of_mics :: "(ref \<Rightarrow> Mic) \<Rightarrow> ref list \<Rightarrow> (mic_name option \<rightharpoonup> ref)" where
  "dict_of_mics h rs = foldl (\<lambda>d r. d(name (h r) \<mapsto> r)) Map.empty rs"

text \<open>
  \<^verbatim>\<open>MicArray.__init__\<close>, on a heap \<open>h\<close> whose next unused reference is \<open>n\<close>. The
  attributes that \<^verbatim>\<open>_load_cfg\<close> assigns do not exist before it runs; the record holds
  placeholders for them, which \<^verbatim>\<open>_load_cfg\<close> overwrites.
\<close>

definition MicArray_init ::
  "(string \<Rightarrow> error + json_mic_obj list) \<Rightarrow> (ref \<Rightarrow> Mic) \<Rightarrow> ref \<Rightarrow> string \<Rightarrow> error + MicArray" where
  "MicArray_init files h n fname =
     (case load_cfg files
             \<lparr>heap = h, next_ref = n, cfg_fname = fname, nChannels = 0, mics = [],
              valid_names = None, name_to_mic = Map.empty\<rparr> of
        Inl e \<Rightarrow> Inl e
      | Inr s \<Rightarrow>
          Inr (s\<lparr>valid_names := None,
                 name_to_mic := dict_of_mics (heap s) (mics s)\<rparr>))"

text \<open>\<^verbatim>\<open>validate_names\<close>: the loop with the set of names seen so far.\<close>

fun validate_loop :: "(ref \<Rightarrow> Mic) \<Rightarrow> ref list \<Rightarrow> mic_name option set \<Rightarrow> bool" where
  "validate_loop h [] names = True"
| "validate_loop h (r # rs) names =
     (if name (h r) = None \<or> name (h r) \<in> names then False
      else validate_loop h rs (insert (name (h r)) names))"

definition validate_names :: "MicArray \<Rightarrow> bool \<times> MicArray" where
  "validate_names s =
     (let b = validate_loop (heap s) (mics s) {} in (b, s\<lparr>valid_names := Some b\<rparr>))"

text \<open>\<^verbatim>\<open>gen_names\<close>: each object of the enumeration gets its index as name.\<close>

fun gen_loop :: "(nat \<times> ref) list \<Rightarrow> (ref \<Rightarrow> Mic) \<Rightarrow> (ref \<Rightarrow> Mic)" where
  "gen_loop [] h = h"
| "gen_loop ((idx, mic) # rest) h =
     gen_loop rest (h(mic := (h mic)\<lparr>name := Some (IntName (int idx))\<rparr>))"

definition gen_names :: "MicArray \<Rightarrow> MicArray" where
  "gen_names s = s\<lparr>heap := gen_loop (enumerate 0 (mics s)) (heap s)\<rparr>"

text \<open>\<^verbatim>\<open>get_sample_freq\<close>: \<open>rval\<close> is the rate of the previous microphone.\<close>

fun sample_freq_loop :: "(ref \<Rightarrow> Mic) \<Rightarrow> ref list \<Rightarrow> int option \<Rightarrow> int option" where
  "sample_freq_loop h [] rval = rval"
| "sample_freq_loop h (r # rs) rval =
     (if rval \<noteq> None \<and> rval \<noteq> Some (fS (h r)) then None
      else sample_freq_loop h rs (Some (fS (h r))))"

definition get_sample_freq :: "MicArray \<Rightarrow> int option" where
  "get_sample_freq s = sample_freq_loop (heap s) (mics s) None"

text \<open>\<^verbatim>\<open>__contains__\<close>.\<close>

definition contains :: "MicArray \<Rightarrow> mic_name option \<Rightarrow> bool" where
  "contains s nm = (nm \<in> dom (name_to_mic s))"

text \<open>
  \<^verbatim>\<open>set_mic_locs\<close>. The dictionary \<open>locs\<close> is the list of its items in iteration order.
  The result is the exception raised, if any, and the state as the call leaves it.
\<close>

fun set_mic_locs :: "MicArray \<Rightarrow> (mic_name option \<times> real list) list \<Rightarrow> error option \<times> MicArray" where
  "set_mic_locs s [] = (None, s)"
| "set_mic_locs s ((mic_name, p) # locs) =
     (if contains s mic_name then
        (case name_to_mic s mic_name of
           None \<Rightarrow> (Some KeyError, s)
         | Some r \<Rightarrow>
             set_mic_locs (s\<lparr>heap := (heap s)(r := (heap s r)\<lparr>pos := np_array p\<rparr>)\<rparr>) locs)
      else (Some (InvalidInput mic_name), s))"

text \<open>The items of \<open>locs\<close> that a call processes: those before the first absent name.\<close>

definition processed :: "MicArray \<Rightarrow> (mic_name option \<times> real list) list \<Rightarrow> (mic_name option \<times> real list) list" where
  "processed s locs = takeWhile (\<lambda>(nm, p). contains s nm) locs"

text \<open>
  The states of a \<^verbatim>\<open>MicArray\<close> that the class itself produces: construction, followed by
  any calls of its methods.
\<close>

inductive reachable :: "MicArray \<Rightarrow> bool" where
  init: "MicArray_init files h n fname = Inr s \<Longrightarrow> reachable s"
| validate: "reachable s \<Longrightarrow> reachable (snd (validate_names s))"
| gen: "reachable s \<Longrightarrow> reachable (gen_names s)"
| set_locs: "reachable s \<Longrightarrow> reachable (snd (set_mic_locs s locs))"

section \<open>The display function of \<^verbatim>\<open>util.py\<close>\<close>

text \<open>
  \<^verbatim>\<open>plot_audio_dat\<close> calls three library functions. \<^verbatim>\<open>plt.subplots(nrows)\<close>, with its
  default \<^verbatim>\<open>squeeze=True\<close>, raises \<^verbatim>\<open>ValueError\<close> for no row, returns one \<^verbatim>\<open>Axes\<close>
  object for one row and an array of \<^verbatim>\<open>Axes\<close> for more; an \<^verbatim>\<open>Axes\<close> object cannot be
  iterated over. \<^verbatim>\<open>max\<close> of an empty list raises \<^verbatim>\<open>ValueError\<close>. \<^verbatim>\<open>np.pad\<close> with the
  width \<^verbatim>\<open>((0, k),)\<close> appends \<open>k\<close> zeros. The numbers of a signal and the sample rate
  are floats in the code and reals here.
\<close>

datatype plot_error = ValueError | TypeError

datatype axes = SingleAxes | AxesArray nat

definition plt_subplots :: "nat \<Rightarrow> plot_error + axes" where
  "plt_subplots nrows =
     (if nrows = 0 then Inl ValueError
      else if nrows = 1 then Inr SingleAxes
      else Inr (AxesArray nrows))"

definition py_max :: "nat list \<Rightarrow> plot_error + nat" where
  "py_max xs = (case xs of [] \<Rightarrow> Inl ValueError | x # rest \<Rightarrow> Inr (fold max rest x))"

definition np_pad :: "real list \<Rightarrow> nat \<Rightarrow> real list" where
  "np_pad audio_signal k = audio_signal @ replicate k 0"

text \<open>What one call of \<^verbatim>\<open>ax.plot\<close> draws, with the name in the title.\<close>

record subplot =
  title_name :: mic_name
  x_data :: "real list"
  y_data :: "real list"

text \<open>
  \<^verbatim>\<open>plot_audio_dat\<close>: the dictionary is the list of its items in iteration order, the
  result is the list of subplots drawn, or the exception. \<^verbatim>\<open>zip(axs, ...)\<close> iterates
  over \<open>axs\<close>.
\<close>

definition plot_audio_dat :: "(mic_name \<times> real list) list \<Rightarrow> real \<Rightarrow> plot_error + subplot list" where
  "plot_audio_dat audio_dat rate =
     (case plt_subplots (length audio_dat) of
        Inl e \<Rightarrow> Inl e
      | Inr axs \<Rightarrow>
          (case py_max (map (\<lambda>(nm, audio_signal). length audio_signal) audio_dat) of
             Inl e \<Rightarrow> Inl e
           | Inr max_len \<Rightarrow>
               (let t = map (\<lambda>i. real i / rate) [0..<max_len] in
                case axs of
                  SingleAxes \<Rightarrow> Inl TypeError
                | AxesArray k \<Rightarrow>
                    Inr (map (\<lambda>(ax, (nm, audio_signal)).
                               \<lparr>title_name = nm, x_data = t,
                                y_data = np_pad audio_signal (max_len - length audio_signal)\<rparr>)
                             (zip [0..<k] audio_dat)))))"

section \<open>A configuration file and the array it gives\<close>

text \<open>
  The file \<^verbatim>\<open>[{"name":"A","fS":16000,"pos":[0,0,0]},{"name":"B","fS":16000,"pos":[1,0,0]}]\<close>,
  an object with no \<^verbatim>\<open>fS\<close>, a heap with nothing of interest in it, and the array that
  construction from the file gives on that heap.
\<close>

definition mic_A :: json_mic_obj where
  "mic_A = \<lparr>j_name = Some (Some (StrName ''A'')), j_fS = Some 16000, j_pos = Some [0, 0, 0]\<rparr>"

definition mic_B :: json_mic_obj where
  "mic_B = \<lparr>j_name = Some (Some (StrName ''B'')), j_fS = Some 16000, j_pos = Some [1, 0, 0]\<rparr>"

definition mic_no_fS :: json_mic_obj where
  "mic_no_fS = \<lparr>j_name = Some (Some (StrName ''C'')), j_fS = None, j_pos = Some [0, 0, 0]\<rparr>"

definition mic_unnamed :: json_mic_obj where
  "mic_unnamed = \<lparr>j_name = None, j_fS = Some 8000, j_pos = Some [0, 1, 0]\<rparr>"

definition mic_A2 :: json_mic_obj where
  "mic_A2 = \<lparr>j_name = Some (Some (StrName ''A'')), j_fS = Some 16000, j_pos = Some [2, 0, 0]\<rparr>"

text \<open>
  Two more files: one whose second object has no name, and one whose third object has the
  name of the first.
\<close>

definition example_files :: "string \<Rightarrow> error + json_mic_obj list" where
  "example_files fname =
     (if fname = ''mic_cfg.json'' then Inr [mic_A, mic_B]
      else if fname = ''unnamed.json'' then Inr [mic_A, mic_unnamed]
      else if fname = ''twice.json'' then Inr [mic_A, mic_B, mic_A2]
      else Inl (LoadError fname))"

definition blank_heap :: "ref \<Rightarrow> Mic" where
  "blank_heap r = \<lparr>name = None, fS = 0, pos = []\<rparr>"

definition example_array :: MicArray where
  "example_array =
     \<lparr>heap = blank_heap
         (0 := \<lparr>name = Some (StrName ''A''), fS = 16000, pos = [0, 0, 0]\<rparr>,
          1 := \<lparr>name = Some (StrName ''B''), fS = 16000, pos = [1, 0, 0]\<rparr>),
      next_ref = 2, cfg_fname = ''mic_cfg.json'', nChannels = 2, mics = [0, 1],
      valid_names = None,
      name_to_mic = [Some (StrName ''A'') \<mapsto> 0, Some (StrName ''B'') \<mapsto> 1]\<rparr>"


section \<open>Constructing a microphone\<close>

lemma check_required_params:
  "check_required obj required_params =
     (if j_fS obj = None then Some (ConfigError ''fS'' obj)
      else if j_pos obj = None then Some (ConfigError ''pos'' obj)
      else None)"
  by (simp add: required_params_def has_key_def)

lemma Mic_init_Inr:
  "j_fS obj = Some f \<Longrightarrow> j_pos obj = Some p \<Longrightarrow>
   Mic_init obj d =
     Inr \<lparr>name = (case j_name obj of Some v \<Rightarrow> v | None \<Rightarrow> d), fS = f, pos = np_array p\<rparr>"
  by (simp add: Mic_init_def check_required_params)

section \<open>Loading the configuration\<close>

lemma append_mics_frame:
  "append_mics data s = Inr s' \<Longrightarrow>
   mics s' = mics s @ [next_ref s ..< next_ref s + length data] \<and>
   next_ref s' = next_ref s + length data \<and>
   nChannels s' = nChannels s \<and> cfg_fname s' = cfg_fname s \<and>
   valid_names s' = valid_names s \<and> name_to_mic s' = name_to_mic s"
proof (induction data arbitrary: s)
  case Nil then show ?case by simp
next
  case (Cons obj data)
  from Cons.prems obtain m where m: "Mic_init obj None = Inr m"
    and rest: "append_mics data (s\<lparr>heap := (heap s)(next_ref s := m),
               next_ref := Suc (next_ref s), mics := mics s @ [next_ref s]\<rparr>) = Inr s'"
    by (auto split: sum.splits)
  have "[next_ref s ..< next_ref s + length (obj # data)] =
        next_ref s # [Suc (next_ref s) ..< Suc (next_ref s) + length data]"
    using upt_conv_Cons [of "next_ref s" "next_ref s + length (obj # data)"] by simp
  with Cons.IH [OF rest] show ?case by simp
qed

lemma append_mics_old:
  "append_mics data s = Inr s' \<Longrightarrow> r < next_ref s \<Longrightarrow> heap s' r = heap s r"
proof (induction data arbitrary: s)
  case Nil then show ?case by simp
next
  case (Cons obj data)
  from Cons.prems(1) obtain m where m: "Mic_init obj None = Inr m"
    and rest: "append_mics data (s\<lparr>heap := (heap s)(next_ref s := m),
               next_ref := Suc (next_ref s), mics := mics s @ [next_ref s]\<rparr>) = Inr s'"
    by (auto split: sum.splits)
  from Cons.IH [OF rest] Cons.prems(2) show ?case by simp
qed

lemma append_mics_new:
  "append_mics data s = Inr s' \<Longrightarrow> i < length data \<Longrightarrow>
   Mic_init (data ! i) None = Inr (heap s' (next_ref s + i))"
proof (induction data arbitrary: s i)
  case Nil then show ?case by simp
next
  case (Cons obj data)
  from Cons.prems(1) obtain m where m: "Mic_init obj None = Inr m"
    and rest: "append_mics data (s\<lparr>heap := (heap s)(next_ref s := m),
               next_ref := Suc (next_ref s), mics := mics s @ [next_ref s]\<rparr>) = Inr s'"
    by (auto split: sum.splits)
  show ?case
  proof (cases i)
    case 0
    from append_mics_old [OF rest, of "next_ref s"] have "heap s' (next_ref s) = m" by simp
    with m 0 show ?thesis by simp
  next
    case (Suc k)
    with Cons.prems(2) have "k < length data" by simp
    from Cons.IH [OF rest this] Suc show ?thesis by simp
  qed
qed

lemma append_mics_succeeds:
  "\<forall>obj \<in> set data. has_key obj ''fS'' \<and> has_key obj ''pos'' \<Longrightarrow> \<exists>s'. append_mics data s = Inr s'"
proof (induction data arbitrary: s)
  case Nil then show ?case by simp
next
  case (Cons obj data)
  from Cons.prems obtain f p where "j_fS obj = Some f" "j_pos obj = Some p"
    by (auto simp: has_key_def)
  then have "Mic_init obj None = Inr \<lparr>name = (case j_name obj of Some v \<Rightarrow> v | None \<Rightarrow> None), fS = f, pos = np_array p\<rparr>"
    by (rule Mic_init_Inr)
  moreover from Cons.prems have "\<forall>obj \<in> set data. has_key obj ''fS'' \<and> has_key obj ''pos''" by simp
  ultimately show ?case using Cons.IH by simp
qed

lemma dict_of_mics_snoc:
  "dict_of_mics h (rs @ [r]) = (dict_of_mics h rs)(name (h r) \<mapsto> r)"
  by (simp add: dict_of_mics_def)

lemma dict_of_mics_Nil: "dict_of_mics h [] = Map.empty"
  by (simp add: dict_of_mics_def)

lemma dom_dict_of_mics: "dom (dict_of_mics h rs) = (\<lambda>r. name (h r)) ` set rs"
proof (induction rs rule: rev_induct)
  case Nil
  show ?case by (simp add: dict_of_mics_Nil)
next
  case (snoc x xs)
  have "dom (dict_of_mics h (xs @ [x])) = insert (name (h x)) (dom (dict_of_mics h xs))"
    by (subst dict_of_mics_snoc) simp
  with snoc.IH show ?case by simp
qed

lemma dict_of_mics_Some:
  "dict_of_mics h rs k = Some r \<Longrightarrow> r \<in> set rs \<and> name (h r) = k"
  by (induction rs rule: rev_induct) (auto simp: dict_of_mics_snoc dict_of_mics_Nil split: if_splits)

lemma dict_of_mics_last:
  "i < length rs \<Longrightarrow>
   \<forall>j. i < j \<and> j < length rs \<longrightarrow> name (h (rs ! j)) \<noteq> name (h (rs ! i)) \<Longrightarrow>
   dict_of_mics h rs (name (h (rs ! i))) = Some (rs ! i)"
proof (induction rs rule: rev_induct)
  case Nil then show ?case by simp
next
  case (snoc x xs)
  show ?case
  proof (cases "i = length xs")
    case True
    then show ?thesis by (simp add: dict_of_mics_snoc)
  next
    case False
    with snoc.prems(1) have i: "i < length xs" by simp
    from snoc.prems(2) i have "name (h x) \<noteq> name (h (xs ! i))"
      by (auto simp: nth_append dest: spec [of _ "length xs"])
    moreover have "\<forall>j. i < j \<and> j < length xs \<longrightarrow> name (h (xs ! j)) \<noteq> name (h (xs ! i))"
    proof (intro allI impI)
      fix j assume j: "i < j \<and> j < length xs"
      with snoc.prems(2) have "name (h ((xs @ [x]) ! j)) \<noteq> name (h ((xs @ [x]) ! i))" by auto
      with i j show "name (h (xs ! j)) \<noteq> name (h (xs ! i))" by (simp add: nth_append)
    qed
    ultimately show ?thesis using snoc.IH [OF i] i by (simp add: dict_of_mics_snoc nth_append)
  qed
qed

lemma inj_dict_of_mics: "inj_on (dict_of_mics h rs) (dom (dict_of_mics h rs))"
proof (rule inj_onI)
  fix a b assume "a \<in> dom (dict_of_mics h rs)" "b \<in> dom (dict_of_mics h rs)"
    and eq: "dict_of_mics h rs a = dict_of_mics h rs b"
  then obtain r where a: "dict_of_mics h rs a = Some r" by auto
  with eq have b: "dict_of_mics h rs b = Some r" by simp
  from dict_of_mics_Some [OF a] have "name (h r) = a" by simp
  moreover from dict_of_mics_Some [OF b] have "name (h r) = b" by simp
  ultimately show "a = b" by simp
qed

section \<open>The sample rate loop\<close>

lemma sample_freq_loop_Some_start:
  "sample_freq_loop h rs (Some g) = Some f \<Longrightarrow> g = f"
proof (induction rs arbitrary: g)
  case Nil then show ?case by simp
next
  case (Cons r rs)
  then show ?case by (simp split: if_splits)
qed

lemma sample_freq_loop_Some_all:
  "sample_freq_loop h rs rval = Some f \<Longrightarrow> r \<in> set rs \<Longrightarrow> fS (h r) = f"
proof (induction rs arbitrary: rval)
  case Nil then show ?case by simp
next
  case (Cons x rs)
  from Cons.prems(1) have step: "sample_freq_loop h rs (Some (fS (h x))) = Some f"
    by (simp split: if_splits)
  then have "fS (h x) = f" by (rule sample_freq_loop_Some_start)
  moreover have "r \<in> set rs \<Longrightarrow> fS (h r) = f" using Cons.IH [OF step] .
  ultimately show ?case using Cons.prems(2) by auto
qed

lemma sample_freq_loop_differ:
  assumes "r1 \<in> set rs" "r2 \<in> set rs" "fS (h r1) \<noteq> fS (h r2)"
  shows "sample_freq_loop h rs rval = None"
proof (cases "sample_freq_loop h rs rval")
  case None then show ?thesis .
next
  case (Some f)
  from sample_freq_loop_Some_all [OF Some assms(1)] sample_freq_loop_Some_all [OF Some assms(2)] assms(3)
  show ?thesis by simp
qed

section \<open>Renaming and moving microphones\<close>

lemma gen_loop_other: "r \<notin> snd ` set ps \<Longrightarrow> gen_loop ps h r = h r"
  by (induction ps arbitrary: h) auto

lemma gen_loop_fS_pos: "fS (gen_loop ps h r) = fS (h r) \<and> pos (gen_loop ps h r) = pos (h r)"
  by (induction ps arbitrary: h) auto

lemma gen_loop_name:
  "distinct (map snd ps) \<Longrightarrow> (idx, r) \<in> set ps \<Longrightarrow>
   name (gen_loop ps h r) = Some (IntName (int idx))"
proof (induction ps arbitrary: h)
  case Nil then show ?case by simp
next
  case (Cons a rest)
  obtain i0 r0 where a: "a = (i0, r0)" by (cases a)
  let ?h1 = "h(r0 := (h r0)\<lparr>name := Some (IntName (int i0))\<rparr>)"
  have unfold: "gen_loop (a # rest) h = gen_loop rest ?h1" by (simp add: a)
  show ?case
  proof (cases "(idx, r) = (i0, r0)")
    case True
    with Cons.prems(1) a have "r \<notin> snd ` set rest" by simp
    then have "gen_loop rest ?h1 r = ?h1 r" by (rule gen_loop_other)
    with True unfold show ?thesis by simp
  next
    case False
    with Cons.prems a have "distinct (map snd rest)" "(idx, r) \<in> set rest" by auto
    then have "name (gen_loop rest ?h1 r) = Some (IntName (int idx))" by (rule Cons.IH)
    with unfold show ?thesis by simp
  qed
qed

lemma contains_heap_upd: "contains (s\<lparr>heap := h\<rparr>) nm = contains s nm"
  by (simp add: contains_def)

lemma processed_heap_upd: "processed (s\<lparr>heap := h\<rparr>) locs = processed s locs"
  by (simp add: processed_def contains_def)

lemma set_mic_locs_fields:
  "name_to_mic (snd (set_mic_locs s locs)) = name_to_mic s \<and>
   mics (snd (set_mic_locs s locs)) = mics s \<and>
   nChannels (snd (set_mic_locs s locs)) = nChannels s \<and>
   valid_names (snd (set_mic_locs s locs)) = valid_names s \<and>
   cfg_fname (snd (set_mic_locs s locs)) = cfg_fname s \<and>
   next_ref (snd (set_mic_locs s locs)) = next_ref s"
  by (induction s locs rule: set_mic_locs.induct) (simp_all split: option.splits)

lemma set_mic_locs_name_fS:
  "name (heap (snd (set_mic_locs s locs)) r) = name (heap s r) \<and>
   fS (heap (snd (set_mic_locs s locs)) r) = fS (heap s r)"
  by (induction s locs rule: set_mic_locs.induct) (simp_all split: option.splits)

lemma set_mic_locs_untouched:
  "\<forall>(nm, p) \<in> set (processed s locs). name_to_mic s nm \<noteq> Some r \<Longrightarrow>
   heap (snd (set_mic_locs s locs)) r = heap s r"
proof (induction s locs rule: set_mic_locs.induct)
  case (1 s) then show ?case by simp
next
  case (2 s nm0 p0 locs)
  show ?case
  proof (cases "contains s nm0")
    case False then show ?thesis by simp
  next
    case True
    then obtain r0 where r0: "name_to_mic s nm0 = Some r0" by (auto simp: contains_def)
    let ?s1 = "s\<lparr>heap := (heap s)(r0 := (heap s r0)\<lparr>pos := np_array p0\<rparr>)\<rparr>"
    from "2.prems" True have here: "r0 \<noteq> r" and
      rest: "\<forall>(nm, p) \<in> set (processed s locs). name_to_mic s nm \<noteq> Some r"
      using r0 by (auto simp: processed_def)
    from rest have "\<forall>(nm, p) \<in> set (processed ?s1 locs). name_to_mic ?s1 nm \<noteq> Some r"
      by (simp add: processed_heap_upd)
    from "2.IH" [OF True r0 this] here True r0 show ?thesis by simp
  qed
qed

lemma set_mic_locs_error:
  "fst (set_mic_locs s locs) =
     (case dropWhile (\<lambda>(nm, p). contains s nm) locs of
        [] \<Rightarrow> None
      | (nm, p) # rest \<Rightarrow> Some (InvalidInput nm))"
proof (induction s locs rule: set_mic_locs.induct)
  case (1 s) then show ?case by simp
next
  case (2 s nm0 p0 locs)
  show ?case
  proof (cases "contains s nm0")
    case False then show ?thesis by simp
  next
    case True
    then obtain r0 where r0: "name_to_mic s nm0 = Some r0" by (auto simp: contains_def)
    from "2.IH" [OF True r0] True r0 show ?thesis by (simp add: contains_heap_upd)
  qed
qed

lemma set_mic_locs_processed:
  "set_mic_locs s (processed s locs) = (None, snd (set_mic_locs s locs))"
proof (induction s locs rule: set_mic_locs.induct)
  case (1 s) then show ?case by (simp add: processed_def)
next
  case (2 s nm0 p0 locs)
  show ?case
  proof (cases "contains s nm0")
    case False then show ?thesis by (simp add: processed_def)
  next
    case True
    then obtain r0 where r0: "name_to_mic s nm0 = Some r0" by (auto simp: contains_def)
    let ?s1 = "s\<lparr>heap := (heap s)(r0 := (heap s r0)\<lparr>pos := np_array p0\<rparr>)\<rparr>"
    have "processed s ((nm0, p0) # locs) = (nm0, p0) # processed ?s1 locs"
      using True by (simp add: processed_def contains_def)
    with "2.IH" [OF True r0] True r0 show ?thesis by simp
  qed
qed

lemma set_mic_locs_final:
  "distinct (map fst locs) \<Longrightarrow> inj_on (name_to_mic s) (dom (name_to_mic s)) \<Longrightarrow>
   (nm, p) \<in> set (processed s locs) \<Longrightarrow> name_to_mic s nm = Some r \<Longrightarrow>
   pos (heap (snd (set_mic_locs s locs)) r) = np_array p"
proof (induction s locs rule: set_mic_locs.induct)
  case (1 s) then show ?case by (simp add: processed_def)
next
  case (2 s nm0 p0 locs)
  from "2.prems"(3) have True: "contains s nm0"
    by (cases "contains s nm0") (auto simp: processed_def)
  then obtain r0 where r0: "name_to_mic s nm0 = Some r0" by (auto simp: contains_def)
  let ?s1 = "s\<lparr>heap := (heap s)(r0 := (heap s r0)\<lparr>pos := np_array p0\<rparr>)\<rparr>"
  have step: "snd (set_mic_locs s ((nm0, p0) # locs)) = snd (set_mic_locs ?s1 locs)"
    using True r0 by simp
  have proc: "processed s ((nm0, p0) # locs) = (nm0, p0) # processed ?s1 locs"
    using True by (simp add: processed_def contains_def)
  show ?case
  proof (cases "(nm, p) = (nm0, p0)")
    case same: True
    with r0 "2.prems"(4) have rr: "r = r0" by simp
    have "\<forall>(nm', p') \<in> set (processed ?s1 locs). name_to_mic ?s1 nm' \<noteq> Some r0"
    proof (clarify)
      fix nm' p' assume mem: "(nm', p') \<in> set (processed ?s1 locs)"
        and hit: "name_to_mic ?s1 nm' = Some r0"
      from mem have "(nm', p') \<in> set locs" by (auto simp: processed_def dest: set_takeWhileD)
      with "2.prems"(1) have "nm' \<noteq> nm0" by force
      moreover from hit r0 have "name_to_mic s nm' = name_to_mic s nm0" by simp
      moreover from hit r0 have "nm' \<in> dom (name_to_mic s)" "nm0 \<in> dom (name_to_mic s)" by auto
      ultimately show False using "2.prems"(2) by (auto dest: inj_onD)
    qed
    then have "heap (snd (set_mic_locs ?s1 locs)) r0 = heap ?s1 r0"
      by (rule set_mic_locs_untouched)
    with step rr same show ?thesis by simp
  next
    case False
    with "2.prems"(3) proc have mem: "(nm, p) \<in> set (processed ?s1 locs)" by auto
    from "2.prems"(1) have d: "distinct (map fst locs)" by simp
    from "2.prems"(2) have i: "inj_on (name_to_mic ?s1) (dom (name_to_mic ?s1))" by simp
    from "2.prems"(4) have l: "name_to_mic ?s1 nm = Some r" by simp
    from "2.IH" [OF True r0 d i mem l] step show ?thesis by simp
  qed
qed

section \<open>Construction, and the states the class produces\<close>

lemma validate_loop_eq:
  "validate_loop h rs names =
     (distinct (map (\<lambda>r. name (h r)) rs) \<and> (\<forall>r \<in> set rs. name (h r) \<noteq> None) \<and>
      (\<forall>r \<in> set rs. name (h r) \<notin> names))"
proof (induction rs arbitrary: names)
  case Nil
  show ?case by simp
next
  case (Cons x rs)
  have "(\<forall>r \<in> set rs. name (h r) \<notin> insert (name (h x)) names) =
        (name (h x) \<notin> (\<lambda>r. name (h r)) ` set rs \<and> (\<forall>r \<in> set rs. name (h r) \<notin> names))"
    by (auto simp: image_iff)
  then show ?case using Cons.IH [of "insert (name (h x)) names"] by auto
qed

lemma sample_freq_loop_same:
  "\<forall>r \<in> set rs. fS (h r) = f \<Longrightarrow> rval = None \<or> rval = Some f \<Longrightarrow>
   sample_freq_loop h rs rval = (if rs = [] then rval else Some f)"
  by (induction rs arbitrary: rval) auto

lemma MicArray_init_Inr:
  assumes "MicArray_init files h n fname = Inr s"
  shows "\<exists>data. files fname = Inr data \<and>
           mics s = [n ..< n + length data] \<and> nChannels s = length data \<and>
           valid_names s = None \<and> name_to_mic s = dict_of_mics (heap s) (mics s) \<and>
           (\<forall>i < length data. Mic_init (data ! i) None = Inr (heap s (n + i)))"
proof -
  let ?s0 = "\<lparr>heap = h, next_ref = n, cfg_fname = fname, nChannels = 0, mics = [],
              valid_names = None, name_to_mic = Map.empty\<rparr>"
  from assms obtain s1 where s1: "load_cfg files ?s0 = Inr s1"
    and s: "s = s1\<lparr>valid_names := None, name_to_mic := dict_of_mics (heap s1) (mics s1)\<rparr>"
    by (auto simp: MicArray_init_def split: sum.splits)
  from s1 obtain data where data: "files fname = Inr data"
    and app: "append_mics data (?s0\<lparr>nChannels := length data, mics := []\<rparr>) = Inr s1"
    by (auto simp: load_cfg_def split: sum.splits)
  from append_mics_frame [OF app]
  have "mics s1 = [n ..< n + length data]" "nChannels s1 = length data" by simp_all
  moreover from append_mics_new [OF app]
  have "\<forall>i < length data. Mic_init (data ! i) None = Inr (heap s1 (n + i))" by simp
  ultimately show ?thesis using data s by simp
qed

lemma MicArray_init_succeeds:
  assumes "files fname = Inr data"
    and "\<forall>obj \<in> set data. has_key obj ''fS'' \<and> has_key obj ''pos''"
  shows "\<exists>s. MicArray_init files h n fname = Inr s"
proof -
  let ?s0 = "\<lparr>heap = h, next_ref = n, cfg_fname = fname, nChannels = 0, mics = [],
              valid_names = None, name_to_mic = Map.empty\<rparr>"
  from append_mics_succeeds [OF assms(2)]
  obtain s1 where "append_mics data (?s0\<lparr>nChannels := length data, mics := []\<rparr>) = Inr s1"
    by blast
  with assms(1) have "load_cfg files ?s0 = Inr s1" by (simp add: load_cfg_def)
  then show ?thesis by (simp add: MicArray_init_def)
qed

lemma example_array_init:
  "MicArray_init example_files blank_heap 0 ''mic_cfg.json'' = Inr example_array"
  by (simp add: MicArray_init_def load_cfg_def example_files_def mic_A_def mic_B_def
      Mic_init_def check_required_params np_array_def dict_of_mics_def example_array_def)

lemma reachable_invariant:
  "reachable s \<Longrightarrow>
   distinct (mics s) \<and> inj_on (name_to_mic s) (dom (name_to_mic s)) \<and>
   length (mics s) = nChannels s"
proof (induction rule: reachable.induct)
  case (init files h n fname s)
  from MicArray_init_Inr [OF init] obtain data where
    "files fname = Inr data \<and>
     mics s = [n ..< n + length data] \<and> nChannels s = length data \<and>
     valid_names s = None \<and> name_to_mic s = dict_of_mics (heap s) (mics s) \<and>
     (\<forall>i < length data. Mic_init (data ! i) None = Inr (heap s (n + i)))" ..
  then show ?case using inj_dict_of_mics [of "heap s" "mics s"] by simp
next
  case (validate s)
  then show ?case by (simp add: validate_names_def Let_def)
next
  case (gen s)
  then show ?case by (simp add: gen_names_def)
next
  case (set_locs s locs)
  then show ?case by (simp add: set_mic_locs_fields)
qed

section \<open>Facts about renaming, lookup and plotting\<close>

lemma gen_names_at_index:
  assumes "distinct (mics s)" "i < length (mics s)"
  shows "name (heap (gen_names s) (mics s ! i)) = Some (IntName (int i))"
proof -
  have "distinct (map snd (enumerate 0 (mics s)))" using assms(1) by simp
  moreover have "(i, mics s ! i) \<in> set (enumerate 0 (mics s))"
  proof -
    have "enumerate 0 (mics s) ! i = (i, mics s ! i)" using assms(2) by (simp add: nth_enumerate_eq)
    moreover have "i < length (enumerate 0 (mics s))" using assms(2) by simp
    ultimately show ?thesis by (metis nth_mem)
  qed
  ultimately have "name (gen_loop (enumerate 0 (mics s)) (heap s) (mics s ! i)) = Some (IntName (int i))"
    by (rule gen_loop_name)
  then show ?thesis by (simp add: gen_names_def)
qed

lemma contains_gen_names: "contains (gen_names s) nm = contains s nm"
  by (simp add: gen_names_def contains_def)

lemma processed_all:
  "\<forall>(nm, p) \<in> set locs. contains s nm \<Longrightarrow> processed s locs = locs"
  by (auto simp: processed_def takeWhile_eq_all_conv)

lemma processed_prefix:
  "\<forall>(k, q) \<in> set pre. contains s k \<Longrightarrow> \<not> contains s nm \<Longrightarrow>
   processed s (pre @ (nm, p) # post) = pre"
  by (auto simp: processed_def takeWhile_append2)

lemma set_mic_locs_raises:
  assumes "\<forall>(k, q) \<in> set pre. contains s k" "\<not> contains s nm"
  shows "fst (set_mic_locs s (pre @ (nm, p) # post)) = Some (InvalidInput nm)"
proof -
  have "dropWhile (\<lambda>(nm, p). contains s nm) (pre @ (nm, p) # post) = (nm, p) # post"
    using assms by (auto simp: dropWhile_append2)
  then show ?thesis by (simp add: set_mic_locs_error)
qed

lemma plot_audio_dat_several:
  assumes "2 \<le> length audio_dat"
  shows "\<exists>max_len. py_max (map (\<lambda>(nm, audio_signal). length audio_signal) audio_dat) = Inr max_len \<and>
     plot_audio_dat audio_dat rate =
       Inr (map (\<lambda>(nm, audio_signal).
                  \<lparr>title_name = nm, x_data = map (\<lambda>i. real i / rate) [0..<max_len],
                   y_data = audio_signal @ replicate (max_len - length audio_signal) 0\<rparr>)
                audio_dat)"
proof -
  from assms obtain a rest where ar: "audio_dat = a # rest" by (cases audio_dat) auto
  then obtain max_len where m:
    "py_max (map (\<lambda>(nm, audio_signal). length audio_signal) audio_dat) = Inr max_len"
    by (simp add: py_max_def)
  from assms have sub: "plt_subplots (length audio_dat) = Inr (AxesArray (length audio_dat))"
    by (auto simp: plt_subplots_def)
  have z: "map (\<lambda>(ax, (nm, audio_signal)). f nm audio_signal) (zip [0..<length audio_dat] audio_dat) =
           map (\<lambda>(nm, audio_signal). f nm audio_signal) audio_dat" for f :: "mic_name \<Rightarrow> real list \<Rightarrow> subplot"
  proof -
    have "map (\<lambda>(ax, (nm, audio_signal)). f nm audio_signal) (zip [0..<length audio_dat] audio_dat) =
          map ((\<lambda>(nm, audio_signal). f nm audio_signal) \<circ> snd) (zip [0..<length audio_dat] audio_dat)"
      by (rule map_cong) auto
    also have "\<dots> = map (\<lambda>(nm, audio_signal). f nm audio_signal) (map snd (zip [0..<length audio_dat] audio_dat))"
      by (simp only: map_map)
    also have "map snd (zip [0..<length audio_dat] audio_dat) = audio_dat"
      by (simp add: map_snd_zip)
    finally show ?thesis .
  qed
  from m sub show ?thesis
    by (simp add: plot_audio_dat_def np_pad_def z del: upt.simps)
qed

section \<open>The claims\<close>

text \<open>
  Claim C6. Constructing a \<^verbatim>\<open>Mic\<close> from a mapping that lacks the key \<^verbatim>\<open>fS\<close> or
  the key \<^verbatim>\<open>pos\<close> raises the configuration error, for any default name: the error
  names the first missing parameter and carries the offending object, it is the error of
  the checking loop, which comes before the assignments, and no \<^verbatim>\<open>Mic\<close> is returned.
\<close>

theorem Mic_init_missing_required:
  "\<not> has_key obj ''fS'' \<or> \<not> has_key obj ''pos'' \<Longrightarrow>
   check_required obj required_params =
       Some (ConfigError (if has_key obj ''fS'' then ''pos'' else ''fS'') obj) \<and>
   Mic_init obj default_name =
       Inl (ConfigError (if has_key obj ''fS'' then ''pos'' else ''fS'') obj) \<and>
   (\<forall>m. Mic_init obj default_name \<noteq> Inr m)"
  by (auto simp: Mic_init_def check_required_params has_key_def)

theorem Mic_init_missing_required_witness:
  "\<not> has_key mic_no_fS ''fS'' \<and>
   Mic_init mic_no_fS (Some (IntName 7)) = Inl (ConfigError ''fS'' mic_no_fS)"
proof -
  have h: "\<not> has_key mic_no_fS ''fS''" by (simp add: has_key_def mic_no_fS_def)
  then have "\<not> has_key mic_no_fS ''fS'' \<or> \<not> has_key mic_no_fS ''pos''" by simp
  from Mic_init_missing_required [OF this, of "Some (IntName 7)"] h show ?thesis by simp
qed

text \<open>
  Claim C1. \<^verbatim>\<open>validate_names\<close> returns false when some microphone has the name
  \<^verbatim>\<open>None\<close> and when two microphones share a name; it returns true exactly when every
  name is present and the names are pairwise distinct. The value returned is stored in
  \<open>valid_names\<close>, which is \<^verbatim>\<open>None\<close> after construction and is left alone by
  \<^verbatim>\<open>gen_names\<close> and \<^verbatim>\<open>set_mic_locs\<close>.
\<close>

theorem validate_names_correct:
  "((\<exists>r \<in> set (mics s). name (heap s r) = None) \<longrightarrow> fst (validate_names s) = False) \<and>
   (\<not> distinct (map (\<lambda>r. name (heap s r)) (mics s)) \<longrightarrow> fst (validate_names s) = False) \<and>
   (fst (validate_names s) = True \<longleftrightarrow>
      (\<forall>r \<in> set (mics s). name (heap s r) \<noteq> None) \<and>
      distinct (map (\<lambda>r. name (heap s r)) (mics s))) \<and>
   valid_names (snd (validate_names s)) = Some (fst (validate_names s)) \<and>
   (MicArray_init files h n fname = Inr s \<longrightarrow> valid_names s = None) \<and>
   valid_names (gen_names s) = valid_names s \<and>
   valid_names (snd (set_mic_locs s locs)) = valid_names s"
proof -
  have v: "fst (validate_names s) =
      (distinct (map (\<lambda>r. name (heap s r)) (mics s)) \<and> (\<forall>r \<in> set (mics s). name (heap s r) \<noteq> None))"
    by (simp add: validate_names_def Let_def validate_loop_eq)
  have c: "valid_names (snd (validate_names s)) = Some (fst (validate_names s))"
    by (simp add: validate_names_def Let_def)
  have i: "MicArray_init files h n fname = Inr s \<longrightarrow> valid_names s = None"
    using MicArray_init_Inr [of files h n fname s] by blast
  have g: "valid_names (gen_names s) = valid_names s" by (simp add: gen_names_def)
  have l: "valid_names (snd (set_mic_locs s locs)) = valid_names s"
    by (simp add: set_mic_locs_fields)
  from v c i g l show ?thesis by blast
qed

theorem validate_names_correct_witness:
  "MicArray_init example_files blank_heap 0 ''mic_cfg.json'' = Inr example_array \<and>
   valid_names example_array = None \<and>
   fst (validate_names example_array) = True \<and>
   valid_names (snd (validate_names example_array)) = Some True \<and>
   name (heap (example_array\<lparr>heap := (heap example_array)(1 := heap example_array 0)\<rparr>) 1) =
     Some (StrName ''A'') \<and>
   fst (validate_names (example_array\<lparr>heap := (heap example_array)(1 := heap example_array 0)\<rparr>)) = False"
proof -
  let ?twice = "example_array\<lparr>heap := (heap example_array)(1 := heap example_array 0)\<rparr>"
  have d: "distinct (map (\<lambda>r. name (heap example_array r)) (mics example_array))"
    by (simp add: example_array_def)
  have n: "\<forall>r \<in> set (mics example_array). name (heap example_array r) \<noteq> None"
    by (simp add: example_array_def)
  have nd: "\<not> distinct (map (\<lambda>r. name (heap ?twice r)) (mics ?twice))"
    by (simp add: example_array_def)
  have a: "name (heap ?twice 1) = Some (StrName ''A'')" by (simp add: example_array_def)
  from validate_names_correct [of example_array example_files blank_heap 0 "''mic_cfg.json''" "[]"]
    example_array_init d n
  have one: "valid_names example_array = None \<and> fst (validate_names example_array) = True \<and>
    valid_names (snd (validate_names example_array)) = Some True" by simp
  from validate_names_correct [of ?twice example_files blank_heap 0 "''mic_cfg.json''" "[]"] nd
  have two: "fst (validate_names ?twice) = False" by blast
  from example_array_init one a two show ?thesis by blast
qed

text \<open>
  Claim C2. \<^verbatim>\<open>get_sample_freq\<close> returns the shared rate when the list of microphones
  is not empty and all of them have the same \<open>fS\<close>; it returns \<^verbatim>\<open>None\<close> when two
  microphones differ in \<open>fS\<close>, and when the list is empty.
\<close>

theorem get_sample_freq_correct:
  "(mics s \<noteq> [] \<and> (\<forall>r \<in> set (mics s). fS (heap s r) = f) \<longrightarrow> get_sample_freq s = Some f) \<and>
   ((\<exists>r1 \<in> set (mics s). \<exists>r2 \<in> set (mics s). fS (heap s r1) \<noteq> fS (heap s r2)) \<longrightarrow>
      get_sample_freq s = None) \<and>
   (mics s = [] \<longrightarrow> get_sample_freq s = None)"
proof (intro conjI impI)
  assume "mics s \<noteq> [] \<and> (\<forall>r \<in> set (mics s). fS (heap s r) = f)"
  then show "get_sample_freq s = Some f"
    using sample_freq_loop_same [of "mics s" "heap s" f None] by (simp add: get_sample_freq_def)
next
  assume "\<exists>r1 \<in> set (mics s). \<exists>r2 \<in> set (mics s). fS (heap s r1) \<noteq> fS (heap s r2)"
  then show "get_sample_freq s = None"
    unfolding get_sample_freq_def by (blast intro: sample_freq_loop_differ)
next
  assume "mics s = []"
  then show "get_sample_freq s = None" by (simp add: get_sample_freq_def)
qed

theorem get_sample_freq_correct_witness:
  "mics example_array = [0, 1] \<and>
   fS (heap example_array 0) = 16000 \<and> fS (heap example_array 1) = 16000 \<and>
   get_sample_freq example_array = Some 16000 \<and>
   fS (heap (example_array\<lparr>heap := (heap example_array)(1 := blank_heap 1)\<rparr>) 1) = 0 \<and>
   get_sample_freq (example_array\<lparr>heap := (heap example_array)(1 := blank_heap 1)\<rparr>) = None \<and>
   get_sample_freq (example_array\<lparr>mics := []\<rparr>) = None"
proof -
  let ?other = "example_array\<lparr>heap := (heap example_array)(1 := blank_heap 1)\<rparr>"
  have m: "mics example_array = [0, 1]" by (simp add: example_array_def)
  have f: "fS (heap example_array 0) = 16000" "fS (heap example_array 1) = 16000"
    by (simp_all add: example_array_def)
  from m f have "mics example_array \<noteq> [] \<and>
      (\<forall>r \<in> set (mics example_array). fS (heap example_array r) = 16000)"
    by simp
  with get_sample_freq_correct [of example_array 16000]
  have a: "get_sample_freq example_array = Some 16000" by blast
  have o: "fS (heap ?other 1) = 0" by (simp add: blank_heap_def)
  have "0 \<in> set (mics ?other)" "1 \<in> set (mics ?other)"
    "fS (heap ?other 0) \<noteq> fS (heap ?other 1)"
    by (simp_all add: example_array_def blank_heap_def)
  then have "\<exists>r1 \<in> set (mics ?other). \<exists>r2 \<in> set (mics ?other).
      fS (heap ?other r1) \<noteq> fS (heap ?other r2)"
    by blast
  with get_sample_freq_correct [of ?other 0]
  have b: "get_sample_freq ?other = None" by blast
  have "mics (example_array\<lparr>mics := []\<rparr>) = []" by simp
  with get_sample_freq_correct [of "example_array\<lparr>mics := []\<rparr>" 0]
  have c: "get_sample_freq (example_array\<lparr>mics := []\<rparr>) = None" by blast
  from m f a o b c show ?thesis by blast
qed

text \<open>
  Claim C3. \<^verbatim>\<open>set_mic_locs\<close> on an array that the class produced, with a dictionary
  \<open>locs\<close> (its keys are distinct): every item before the first absent name has its
  position stored in the microphone that \<open>name_to_mic\<close> gives for its name; when all
  names are present the call raises nothing; when the item after the items \<open>pre\<close> is
  the first with an absent name, the call raises the invalid-input error for that name and
  leaves the state that the call with \<open>pre\<close> alone, which raises nothing, would leave:
  the updates of the earlier items stay.
\<close>

theorem set_mic_locs_partial:
  assumes "reachable s" and "distinct (map fst locs)"
  shows "(\<forall>(nm, p) \<in> set (processed s locs).
            \<exists>r. name_to_mic s nm = Some r \<and>
                pos (heap (snd (set_mic_locs s locs)) r) = np_array p) \<and>
         ((\<forall>(nm, p) \<in> set locs. contains s nm) \<longrightarrow>
            processed s locs = locs \<and> fst (set_mic_locs s locs) = None) \<and>
         (\<forall>pre nm p post.
            locs = pre @ (nm, p) # post \<and> (\<forall>(k, q) \<in> set pre. contains s k) \<and>
            \<not> contains s nm \<longrightarrow>
            processed s locs = pre \<and> fst (set_mic_locs s pre) = None \<and>
            set_mic_locs s locs = (Some (InvalidInput nm), snd (set_mic_locs s pre)))"
proof (intro conjI)
  from assms(1) have inj: "inj_on (name_to_mic s) (dom (name_to_mic s))"
    by (simp add: reachable_invariant)
  show "\<forall>(nm, p) \<in> set (processed s locs).
            \<exists>r. name_to_mic s nm = Some r \<and>
                pos (heap (snd (set_mic_locs s locs)) r) = np_array p"
  proof (clarify)
    fix nm p assume mem: "(nm, p) \<in> set (processed s locs)"
    then have "contains s nm" by (auto simp: processed_def dest: set_takeWhileD)
    then obtain r where r: "name_to_mic s nm = Some r" by (auto simp: contains_def)
    from set_mic_locs_final [OF assms(2) inj mem r] r
    show "\<exists>r. name_to_mic s nm = Some r \<and>
                pos (heap (snd (set_mic_locs s locs)) r) = np_array p" by simp
  qed
next
  show "(\<forall>(nm, p) \<in> set locs. contains s nm) \<longrightarrow>
            processed s locs = locs \<and> fst (set_mic_locs s locs) = None"
  proof
    assume "\<forall>(nm, p) \<in> set locs. contains s nm"
    then have p: "processed s locs = locs" by (rule processed_all)
    have "fst (set_mic_locs s (processed s locs)) = None"
      by (simp add: set_mic_locs_processed)
    with p show "processed s locs = locs \<and> fst (set_mic_locs s locs) = None"
      by simp
  qed
next
  show "\<forall>pre nm p post.
            locs = pre @ (nm, p) # post \<and> (\<forall>(k, q) \<in> set pre. contains s k) \<and>
            \<not> contains s nm \<longrightarrow>
            processed s locs = pre \<and> fst (set_mic_locs s pre) = None \<and>
            set_mic_locs s locs = (Some (InvalidInput nm), snd (set_mic_locs s pre))"
  proof (intro allI impI)
    fix pre nm p post
    assume h: "locs = pre @ (nm, p) # post \<and> (\<forall>(k, q) \<in> set pre. contains s k) \<and>
            \<not> contains s nm"
    then have l: "locs = pre @ (nm, p) # post" and a: "\<forall>(k, q) \<in> set pre. contains s k"
      and b: "\<not> contains s nm" by simp_all
    from processed_prefix [OF a b] l have pp: "processed s locs = pre" by simp
    have "set_mic_locs s (processed s locs) = (None, snd (set_mic_locs s locs))"
      by (rule set_mic_locs_processed)
    then have pre: "set_mic_locs s pre = (None, snd (set_mic_locs s locs))"
      by (simp only: pp)
    then have same: "snd (set_mic_locs s pre) = snd (set_mic_locs s locs)"
      and none: "fst (set_mic_locs s pre) = None" by simp_all
    from set_mic_locs_raises [OF a b] l
    have "fst (set_mic_locs s locs) = Some (InvalidInput nm)" by simp
    with same have g2: "set_mic_locs s locs = (Some (InvalidInput nm), snd (set_mic_locs s pre))"
      by (simp add: prod_eq_iff)
    show "processed s locs = pre \<and> fst (set_mic_locs s pre) = None \<and>
            set_mic_locs s locs = (Some (InvalidInput nm), snd (set_mic_locs s pre))"
      by (rule conjI [OF pp conjI [OF none g2]])
  qed
qed

theorem set_mic_locs_partial_witness:
  "reachable example_array \<and>
   distinct (map fst [(Some (StrName ''A''), [1, 2, 3]), (Some (StrName ''C''), [4, 5, 6]),
                      (Some (StrName ''B''), [7, 8, 9 :: real])]) \<and>
   set_mic_locs example_array
     [(Some (StrName ''A''), [1, 2, 3]), (Some (StrName ''C''), [4, 5, 6]),
      (Some (StrName ''B''), [7, 8, 9])] =
     (Some (InvalidInput (Some (StrName ''C''))),
      snd (set_mic_locs example_array [(Some (StrName ''A''), [1, 2, 3])])) \<and>
   pos (heap (snd (set_mic_locs example_array [(Some (StrName ''A''), [1, 2, 3])])) 0) = [1, 2, 3] \<and>
   pos (heap (snd (set_mic_locs example_array [(Some (StrName ''A''), [1, 2, 3])])) 1) = [1, 0, 0]"
proof -
  let ?locs = "[(Some (StrName ''A''), [1, 2, 3]), (Some (StrName ''C''), [4, 5, 6]),
                (Some (StrName ''B''), [7, 8, 9 :: real])]"
  have r: "reachable example_array" using example_array_init by (rule reachable.init)
  have d: "distinct (map fst ?locs)" by simp
  have c: "contains example_array (Some (StrName ''A''))"
    "\<not> contains example_array (Some (StrName ''C''))"
    by (simp_all add: contains_def example_array_def)
  have split: "?locs = [(Some (StrName ''A''), [1, 2, 3])] @ (Some (StrName ''C''), [4, 5, 6]) #
                 [(Some (StrName ''B''), [7, 8, 9])]" by simp
  from set_mic_locs_partial [OF r d] have inst:
    "?locs = [(Some (StrName ''A''), [1, 2, 3])] @ (Some (StrName ''C''), [4, 5, 6]) #
                 [(Some (StrName ''B''), [7, 8, 9])] \<and>
     (\<forall>(k, q) \<in> set [(Some (StrName ''A''), [1, 2, 3 :: real])]. contains example_array k) \<and>
     \<not> contains example_array (Some (StrName ''C'')) \<longrightarrow>
     processed example_array ?locs = [(Some (StrName ''A''), [1, 2, 3])] \<and>
     fst (set_mic_locs example_array [(Some (StrName ''A''), [1, 2, 3])]) = None \<and>
     set_mic_locs example_array ?locs =
       (Some (InvalidInput (Some (StrName ''C''))),
        snd (set_mic_locs example_array [(Some (StrName ''A''), [1, 2, 3])]))"
    by blast
  have prem: "?locs = [(Some (StrName ''A''), [1, 2, 3])] @ (Some (StrName ''C''), [4, 5, 6]) #
                 [(Some (StrName ''B''), [7, 8, 9])] \<and>
     (\<forall>(k, q) \<in> set [(Some (StrName ''A''), [1, 2, 3 :: real])]. contains example_array k) \<and>
     \<not> contains example_array (Some (StrName ''C''))"
    using c by simp
  from inst prem
  have e: "set_mic_locs example_array ?locs =
     (Some (InvalidInput (Some (StrName ''C''))),
      snd (set_mic_locs example_array [(Some (StrName ''A''), [1, 2, 3])]))" by blast
  have p: "pos (heap (snd (set_mic_locs example_array [(Some (StrName ''A''), [1, 2, 3])])) 0) = [1, 2, 3]"
    "pos (heap (snd (set_mic_locs example_array [(Some (StrName ''A''), [1, 2, 3])])) 1) = [1, 0, 0]"
    by (simp_all add: contains_def example_array_def np_array_def)
  from r d e p show ?thesis by blast
qed

text \<open>
  Claim C4. After \<^verbatim>\<open>gen_names\<close> on an array that the class produced, the list of
  microphones is the same and the microphone at each index has that index as its name,
  whatever the names were.
\<close>

theorem gen_names_index:
  "reachable s \<Longrightarrow>
   mics (gen_names s) = mics s \<and>
   (\<forall>i < length (mics (gen_names s)).
      name (heap (gen_names s) (mics (gen_names s) ! i)) = Some (IntName (int i)))"
proof -
  assume "reachable s"
  then have d: "distinct (mics s)" by (simp add: reachable_invariant)
  have m: "mics (gen_names s) = mics s" by (simp add: gen_names_def)
  from d m show ?thesis by (simp add: gen_names_at_index)
qed

theorem gen_names_index_witness:
  "reachable example_array \<and>
   name (heap example_array (mics example_array ! 1)) = Some (StrName ''B'') \<and>
   name (heap (gen_names example_array) (mics (gen_names example_array) ! 1)) = Some (IntName 1)"
proof -
  have r: "reachable example_array" using example_array_init by (rule reachable.init)
  have l: "mics example_array = [0, 1]" by (simp add: example_array_def)
  have b: "name (heap example_array (mics example_array ! 1)) = Some (StrName ''B'')"
    by (simp add: example_array_def)
  note both = gen_names_index [OF r]
  from both have m: "mics (gen_names example_array) = mics example_array"
    by (rule conjunct1)
  from both have g: "\<forall>i < length (mics (gen_names example_array)).
      name (heap (gen_names example_array) (mics (gen_names example_array) ! i)) = Some (IntName (int i))"
    by (rule conjunct2)
  from m l have "1 < length (mics (gen_names example_array))" by simp
  with g have
    "name (heap (gen_names example_array) (mics (gen_names example_array) ! 1)) = Some (IntName (int 1))"
    by blast
  with r b show ?thesis by simp
qed

text \<open>
  Claim C5. \<^verbatim>\<open>gen_names\<close> leaves \<open>name_to_mic\<close> as it is: the same keys with the
  same references. The membership test, the items that \<^verbatim>\<open>set_mic_locs\<close> processes and
  the error it raises are those of the state before the renaming; straight after
  construction the keys are the names the microphones had before \<^verbatim>\<open>gen_names\<close>, each
  leading to a microphone that had that name.
\<close>

theorem gen_names_keeps_name_to_mic:
  "name_to_mic (gen_names s) = name_to_mic s \<and>
   (\<forall>nm. contains (gen_names s) nm = contains s nm) \<and>
   processed (gen_names s) locs = processed s locs \<and>
   fst (set_mic_locs (gen_names s) locs) = fst (set_mic_locs s locs) \<and>
   (MicArray_init files h n fname = Inr s \<longrightarrow>
      dom (name_to_mic (gen_names s)) = (\<lambda>r. name (heap s r)) ` set (mics s) \<and>
      (\<forall>nm r. name_to_mic (gen_names s) nm = Some r \<longrightarrow> r \<in> set (mics s) \<and> name (heap s r) = nm))"
proof -
  have a: "name_to_mic (gen_names s) = name_to_mic s" by (simp add: gen_names_def)
  have b: "\<forall>nm. contains (gen_names s) nm = contains s nm" by (simp add: contains_gen_names)
  have c: "processed (gen_names s) locs = processed s locs"
    by (simp add: processed_def contains_gen_names)
  have d: "fst (set_mic_locs (gen_names s) locs) = fst (set_mic_locs s locs)"
    by (simp add: set_mic_locs_error contains_gen_names)
  have e: "MicArray_init files h n fname = Inr s \<longrightarrow>
      dom (name_to_mic (gen_names s)) = (\<lambda>r. name (heap s r)) ` set (mics s) \<and>
      (\<forall>nm r. name_to_mic (gen_names s) nm = Some r \<longrightarrow> r \<in> set (mics s) \<and> name (heap s r) = nm)"
  proof
    assume "MicArray_init files h n fname = Inr s"
    from MicArray_init_Inr [OF this]
    have "name_to_mic s = dict_of_mics (heap s) (mics s)" by auto
    with a have "name_to_mic (gen_names s) = dict_of_mics (heap s) (mics s)" by simp
    then show "dom (name_to_mic (gen_names s)) = (\<lambda>r. name (heap s r)) ` set (mics s) \<and>
      (\<forall>nm r. name_to_mic (gen_names s) nm = Some r \<longrightarrow> r \<in> set (mics s) \<and> name (heap s r) = nm)"
      using dict_of_mics_Some [of "heap s" "mics s"] by (simp add: dom_dict_of_mics)
  qed
  from a b c d e show ?thesis by blast
qed

theorem gen_names_keeps_name_to_mic_witness:
  "MicArray_init example_files blank_heap 0 ''mic_cfg.json'' = Inr example_array \<and>
   name (heap (gen_names example_array) 0) = Some (IntName 0) \<and>
   name_to_mic (gen_names example_array) (Some (StrName ''A'')) = Some 0 \<and>
   contains (gen_names example_array) (Some (StrName ''A'')) \<and>
   \<not> contains (gen_names example_array) (Some (IntName 0)) \<and>
   fst (set_mic_locs (gen_names example_array) [(Some (IntName 0), [1, 2, 3])]) =
     Some (InvalidInput (Some (IntName 0)))"
proof -
  have n: "name (heap (gen_names example_array) 0) = Some (IntName 0)"
    by (simp add: gen_names_def example_array_def enumerate_eq_zip)
  have k: "name_to_mic example_array (Some (StrName ''A'')) = Some 0"
    by (simp add: example_array_def)
  have c: "contains example_array (Some (StrName ''A''))"
    "\<not> contains example_array (Some (IntName 0))"
    by (simp_all add: contains_def example_array_def)
  then have f: "fst (set_mic_locs example_array [(Some (IntName 0), [1, 2, 3])]) =
     Some (InvalidInput (Some (IntName 0)))" by simp
  from gen_names_keeps_name_to_mic
         [of example_array "[(Some (IntName 0), [1, 2, 3])]" example_files blank_heap 0 "''mic_cfg.json''"]
    example_array_init n k c f
  show ?thesis by simp
qed

text \<open>
  Claim C7. When the file holds an array \<open>data\<close> of objects that all have \<^verbatim>\<open>fS\<close> and
  \<^verbatim>\<open>pos\<close>, construction succeeds, \<open>nChannels\<close> and the length of \<open>mics\<close> are the
  length of \<open>data\<close>, the microphone at index \<open>i\<close> is the one that \<^verbatim>\<open>Mic\<close> makes of
  element \<open>i\<close> with the default name \<^verbatim>\<open>None\<close>, and it has the name \<^verbatim>\<open>None\<close> when the
  element has no \<^verbatim>\<open>name\<close> key.
\<close>

theorem MicArray_init_channels:
  assumes "files fname = Inr data"
    and "\<forall>obj \<in> set data. has_key obj ''fS'' \<and> has_key obj ''pos''"
  shows "\<exists>s. MicArray_init files h n fname = Inr s \<and>
           nChannels s = length data \<and> length (mics s) = length data \<and>
           (\<forall>i < length data.
              Mic_init (data ! i) None = Inr (heap s (mics s ! i)) \<and>
              (\<not> has_key (data ! i) ''name'' \<longrightarrow> name (heap s (mics s ! i)) = None))"
proof -
  from MicArray_init_succeeds [of files fname data h n, OF assms] obtain s where s: "MicArray_init files h n fname = Inr s"
    by blast
  from MicArray_init_Inr [OF s] obtain data' where
    d: "files fname = Inr data' \<and>
     mics s = [n ..< n + length data'] \<and> nChannels s = length data' \<and>
     valid_names s = None \<and> name_to_mic s = dict_of_mics (heap s) (mics s) \<and>
     (\<forall>i < length data'. Mic_init (data' ! i) None = Inr (heap s (n + i)))" ..
  with assms(1) have eq: "data' = data" by simp
  have each: "Mic_init (data ! i) None = Inr (heap s (mics s ! i)) \<and>
              (\<not> has_key (data ! i) ''name'' \<longrightarrow> name (heap s (mics s ! i)) = None)"
    if i: "i < length data" for i
  proof -
    from d eq i have m: "Mic_init (data ! i) None = Inr (heap s (mics s ! i))" by simp
    from i have "data ! i \<in> set data" by simp
    with assms(2) have "has_key (data ! i) ''fS'' \<and> has_key (data ! i) ''pos''" by blast
    then obtain f p where fp: "j_fS (data ! i) = Some f" "j_pos (data ! i) = Some p"
      by (auto simp: has_key_def)
    from Mic_init_Inr [OF fp, of None] m
    have "heap s (mics s ! i) =
      \<lparr>name = (case j_name (data ! i) of Some v \<Rightarrow> v | None \<Rightarrow> None), fS = f, pos = np_array p\<rparr>"
      by simp
    then have "\<not> has_key (data ! i) ''name'' \<longrightarrow> name (heap s (mics s ! i)) = None"
      by (simp add: has_key_def)
    with m show ?thesis by simp
  qed
  from d eq have "nChannels s = length data" "length (mics s) = length data" by simp_all
  with s each show ?thesis by blast
qed

theorem MicArray_init_channels_witness:
  "example_files ''unnamed.json'' = Inr [mic_A, mic_unnamed] \<and>
   has_key mic_A ''fS'' \<and> has_key mic_A ''pos'' \<and>
   has_key mic_unnamed ''fS'' \<and> has_key mic_unnamed ''pos'' \<and>
   \<not> has_key mic_unnamed ''name'' \<and>
   (\<exists>s. MicArray_init example_files blank_heap 0 ''unnamed.json'' = Inr s \<and>
        nChannels s = 2 \<and> length (mics s) = 2 \<and> name (heap s (mics s ! 1)) = None)"
proof -
  have f: "example_files ''unnamed.json'' = Inr [mic_A, mic_unnamed]"
    by (simp add: example_files_def)
  have k: "\<forall>obj \<in> set [mic_A, mic_unnamed]. has_key obj ''fS'' \<and> has_key obj ''pos''"
    by (simp add: has_key_def mic_A_def mic_unnamed_def)
  have u: "\<not> has_key mic_unnamed ''name''" by (simp add: has_key_def mic_unnamed_def)
  from MicArray_init_channels
         [of example_files "''unnamed.json''" "[mic_A, mic_unnamed]" blank_heap 0, OF f k]
  obtain s where s: "MicArray_init example_files blank_heap 0 ''unnamed.json'' = Inr s"
    and n: "nChannels s = length [mic_A, mic_unnamed]"
    and l: "length (mics s) = length [mic_A, mic_unnamed]"
    and e: "\<forall>i < length [mic_A, mic_unnamed].
              Mic_init ([mic_A, mic_unnamed] ! i) None = Inr (heap s (mics s ! i)) \<and>
              (\<not> has_key ([mic_A, mic_unnamed] ! i) ''name'' \<longrightarrow> name (heap s (mics s ! i)) = None)"
    by blast
  have "(1::nat) < length [mic_A, mic_unnamed]" by simp
  with e have "\<not> has_key ([mic_A, mic_unnamed] ! 1) ''name'' \<longrightarrow> name (heap s (mics s ! 1)) = None"
    by blast
  with u have "name (heap s (mics s ! 1)) = None" by simp
  with s n l have "MicArray_init example_files blank_heap 0 ''unnamed.json'' = Inr s \<and>
        nChannels s = 2 \<and> length (mics s) = 2 \<and> name (heap s (mics s ! 1)) = None" by simp
  then have "\<exists>s. MicArray_init example_files blank_heap 0 ''unnamed.json'' = Inr s \<and>
        nChannels s = 2 \<and> length (mics s) = 2 \<and> name (heap s (mics s ! 1)) = None" ..
  moreover have "has_key mic_A ''fS'' \<and> has_key mic_A ''pos'' \<and>
      has_key mic_unnamed ''fS'' \<and> has_key mic_unnamed ''pos''"
    by (simp add: has_key_def mic_A_def mic_unnamed_def)
  ultimately show ?thesis using f u by blast
qed

text \<open>
  Claim C8. After construction the keys of \<open>name_to_mic\<close> are the names of the
  microphones, and a name leads to the microphone at the last index that has it. When the
  names are pairwise distinct, the name of every microphone leads to that microphone and
  the dictionary has \<open>nChannels\<close> entries. The membership test holds exactly for the keys
  of \<open>name_to_mic\<close>.
\<close>

theorem name_to_mic_last_wins:
  assumes "MicArray_init files h n fname = Inr s"
  shows "dom (name_to_mic s) = (\<lambda>r. name (heap s r)) ` set (mics s) \<and>
    (\<forall>i < length (mics s).
       (\<forall>j. i < j \<and> j < length (mics s) \<longrightarrow>
            name (heap s (mics s ! j)) \<noteq> name (heap s (mics s ! i))) \<longrightarrow>
       name_to_mic s (name (heap s (mics s ! i))) = Some (mics s ! i)) \<and>
    (distinct (map (\<lambda>r. name (heap s r)) (mics s)) \<longrightarrow>
       (\<forall>i < length (mics s). name_to_mic s (name (heap s (mics s ! i))) = Some (mics s ! i)) \<and>
       card (dom (name_to_mic s)) = nChannels s) \<and>
    (\<forall>nm. contains s nm = (nm \<in> dom (name_to_mic s)))"
proof -
  from MicArray_init_Inr [OF assms] obtain data where
    d: "files fname = Inr data \<and>
     mics s = [n ..< n + length data] \<and> nChannels s = length data \<and>
     valid_names s = None \<and> name_to_mic s = dict_of_mics (heap s) (mics s) \<and>
     (\<forall>i < length data. Mic_init (data ! i) None = Inr (heap s (n + i)))" ..
  then have dict: "name_to_mic s = dict_of_mics (heap s) (mics s)"
    and len: "length (mics s) = nChannels s" by simp_all
  have a: "dom (name_to_mic s) = (\<lambda>r. name (heap s r)) ` set (mics s)"
    by (simp add: dict dom_dict_of_mics)
  have b: "\<forall>i < length (mics s).
       (\<forall>j. i < j \<and> j < length (mics s) \<longrightarrow>
            name (heap s (mics s ! j)) \<noteq> name (heap s (mics s ! i))) \<longrightarrow>
       name_to_mic s (name (heap s (mics s ! i))) = Some (mics s ! i)"
    using dict_of_mics_last [of _ "mics s" "heap s"] by (simp only: dict) blast
  have c: "distinct (map (\<lambda>r. name (heap s r)) (mics s)) \<longrightarrow>
       (\<forall>i < length (mics s). name_to_mic s (name (heap s (mics s ! i))) = Some (mics s ! i)) \<and>
       card (dom (name_to_mic s)) = nChannels s"
  proof
    assume dist: "distinct (map (\<lambda>r. name (heap s r)) (mics s))"
    have "name_to_mic s (name (heap s (mics s ! i))) = Some (mics s ! i)"
      if i: "i < length (mics s)" for i
    proof -
      have "\<forall>j. i < j \<and> j < length (mics s) \<longrightarrow>
            name (heap s (mics s ! j)) \<noteq> name (heap s (mics s ! i))"
      proof (intro allI impI)
        fix j assume j: "i < j \<and> j < length (mics s)"
        from dist have "\<forall>a < length (mics s). \<forall>b < length (mics s). a \<noteq> b \<longrightarrow>
            name (heap s (mics s ! a)) \<noteq> name (heap s (mics s ! b))"
          by (auto simp: distinct_conv_nth)
        moreover from j have "j < length (mics s)" "j \<noteq> i" by simp_all
        ultimately show "name (heap s (mics s ! j)) \<noteq> name (heap s (mics s ! i))"
          using i by blast
      qed
      with b i show ?thesis by blast
    qed
    moreover have "card (dom (name_to_mic s)) = nChannels s"
    proof -
      have "dom (name_to_mic s) = set (map (\<lambda>r. name (heap s r)) (mics s))" by (simp add: a)
      then have "card (dom (name_to_mic s)) = length (map (\<lambda>r. name (heap s r)) (mics s))"
        using dist by (simp only: distinct_card)
      with len show ?thesis by simp
    qed
    ultimately show "(\<forall>i < length (mics s). name_to_mic s (name (heap s (mics s ! i))) = Some (mics s ! i)) \<and>
       card (dom (name_to_mic s)) = nChannels s" by blast
  qed
  have e: "\<forall>nm. contains s nm = (nm \<in> dom (name_to_mic s))" by (simp add: contains_def)
  from a b c e show ?thesis by blast
qed

theorem name_to_mic_last_wins_witness:
  "MicArray_init example_files blank_heap 0 ''mic_cfg.json'' = Inr example_array \<and>
   distinct (map (\<lambda>r. name (heap example_array r)) (mics example_array)) \<and>
   name_to_mic example_array (Some (StrName ''B'')) = Some 1 \<and>
   card (dom (name_to_mic example_array)) = 2 \<and>
   contains example_array (Some (StrName ''A'')) \<and>
   \<not> contains example_array (Some (StrName ''C'')) \<and>
   (\<exists>s. MicArray_init example_files blank_heap 0 ''twice.json'' = Inr s \<and>
        mics s = [0, 1, 2] \<and> name_to_mic s (Some (StrName ''A'')) = Some 2)"
proof -
  note T = name_to_mic_last_wins [OF example_array_init]
  have d: "distinct (map (\<lambda>r. name (heap example_array r)) (mics example_array))"
    by (simp add: example_array_def)
  from T d have c: "card (dom (name_to_mic example_array)) = nChannels example_array"
    and a: "\<forall>i < length (mics example_array).
       name_to_mic example_array (name (heap example_array (mics example_array ! i))) =
         Some (mics example_array ! i)"
    by blast+
  have "(1::nat) < length (mics example_array)" by (simp add: example_array_def)
  with a have "name_to_mic example_array (name (heap example_array (mics example_array ! 1))) =
         Some (mics example_array ! 1)" by blast
  then have b: "name_to_mic example_array (Some (StrName ''B'')) = Some 1"
    by (simp add: example_array_def)
  from c have c2: "card (dom (name_to_mic example_array)) = 2" by (simp add: example_array_def)
  from T have m: "\<forall>nm. contains example_array nm = (nm \<in> dom (name_to_mic example_array))"
    by blast
  have "Some (StrName ''A'') \<in> dom (name_to_mic example_array)"
    "Some (StrName ''C'') \<notin> dom (name_to_mic example_array)"
    by (simp_all add: example_array_def)
  with m have k: "contains example_array (Some (StrName ''A''))"
    "\<not> contains example_array (Some (StrName ''C''))" by simp_all
  have t: "\<exists>s. MicArray_init example_files blank_heap 0 ''twice.json'' = Inr s \<and>
        mics s = [0, 1, 2] \<and> name_to_mic s (Some (StrName ''A'')) = Some 2"
    by (simp add: MicArray_init_def load_cfg_def example_files_def mic_A_def mic_B_def mic_A2_def
        Mic_init_def check_required_params np_array_def dict_of_mics_def)
  from example_array_init d b c2 k t show ?thesis by blast
qed

text \<open>
  Claim C9. \<^verbatim>\<open>plot_audio_dat\<close> on the mapping with the one entry \<^verbatim>\<open>"A": [1, 2]\<close> draws
  no subplot: \<^verbatim>\<open>plt.subplots(1)\<close> gives a single \<^verbatim>\<open>Axes\<close>, and iterating over it in
  \<^verbatim>\<open>zip\<close> raises \<^verbatim>\<open>TypeError\<close>.
\<close>

theorem plot_audio_dat_single_entry:
  "plot_audio_dat [(StrName ''A'', [1, 2])] 16000 = Inl TypeError"
  by (simp add: plot_audio_dat_def plt_subplots_def py_max_def)

text \<open>
  Claim C10. A call of \<^verbatim>\<open>set_mic_locs\<close>, whether it raises or not, leaves \<open>mics\<close>,
  \<open>nChannels\<close>, \<open>valid_names\<close>, \<open>name_to_mic\<close> and the file name as they are, keeps
  the name and the rate of every microphone, and changes no microphone other than those
  that \<open>name_to_mic\<close> gives for the names of the processed items.
\<close>

theorem set_mic_locs_frame:
  assumes "set_mic_locs s locs = (e, s')"
  shows "mics s' = mics s \<and> nChannels s' = nChannels s \<and> valid_names s' = valid_names s \<and>
         name_to_mic s' = name_to_mic s \<and> cfg_fname s' = cfg_fname s \<and>
         (\<forall>r. name (heap s' r) = name (heap s r) \<and> fS (heap s' r) = fS (heap s r)) \<and>
         (\<forall>r. (\<forall>(nm, p) \<in> set (processed s locs). name_to_mic s nm \<noteq> Some r) \<longrightarrow>
              heap s' r = heap s r)"
proof -
  from assms have s': "s' = snd (set_mic_locs s locs)" by simp
  have "\<forall>r. (\<forall>(nm, p) \<in> set (processed s locs). name_to_mic s nm \<noteq> Some r) \<longrightarrow>
              heap s' r = heap s r"
    unfolding s' by (intro allI impI) (rule set_mic_locs_untouched)
  then show ?thesis
    unfolding s' by (simp add: set_mic_locs_fields set_mic_locs_name_fS)
qed

theorem set_mic_locs_frame_witness:
  "set_mic_locs example_array [(Some (StrName ''B''), [7, 8, 9]), (Some (StrName ''C''), [4, 5, 6])] =
     (Some (InvalidInput (Some (StrName ''C''))),
      example_array\<lparr>heap := (heap example_array)
         (1 := \<lparr>name = Some (StrName ''B''), fS = 16000, pos = [7, 8, 9]\<rparr>)\<rparr>) \<and>
   heap (example_array\<lparr>heap := (heap example_array)
         (1 := \<lparr>name = Some (StrName ''B''), fS = 16000, pos = [7, 8, 9]\<rparr>)\<rparr>) 0 =
     heap example_array 0 \<and>
   name_to_mic (example_array\<lparr>heap := (heap example_array)
         (1 := \<lparr>name = Some (StrName ''B''), fS = 16000, pos = [7, 8, 9]\<rparr>)\<rparr>) =
     name_to_mic example_array"
proof -
  let ?locs = "[(Some (StrName ''B''), [7, 8, 9 :: real]), (Some (StrName ''C''), [4, 5, 6])]"
  let ?s' = "example_array\<lparr>heap := (heap example_array)
         (1 := \<lparr>name = Some (StrName ''B''), fS = 16000, pos = [7, 8, 9]\<rparr>)\<rparr>"
  have run: "set_mic_locs example_array ?locs = (Some (InvalidInput (Some (StrName ''C''))), ?s')"
    by (simp add: contains_def example_array_def np_array_def)
  have "processed example_array ?locs = [(Some (StrName ''B''), [7, 8, 9])]"
    by (simp add: processed_def contains_def example_array_def)
  moreover have "name_to_mic example_array (Some (StrName ''B'')) = Some 1"
    by (simp add: example_array_def)
  ultimately have "\<forall>(nm, p) \<in> set (processed example_array ?locs). name_to_mic example_array nm \<noteq> Some 0"
    by simp
  with set_mic_locs_frame [OF run] have "heap ?s' 0 = heap example_array 0"
    and "name_to_mic ?s' = name_to_mic example_array" by blast+
  with run show ?thesis by simp
qed

end
